theory Spec2Isabelle
  imports Complex_Main
begin

section \<open>Data model of \<open>export_svg_glyphs.py\<close>\<close>

text \<open>
  The script handles a glyph outline as the value of a fontTools \<open>RecordingPen\<close>: a list
  of pairs \<open>(operator, operands)\<close>, the operator a string and the operands a tuple of
  points. A point is a pair of numbers; an operand of \<open>qCurveTo\<close> may be \<open>None\<close>.
  Coordinates are modelled as exact reals, the operator stays a string (so that operators
  the script does not know are inputs of the model too), and an operand is a
  \<open>point option\<close>.
\<close>

type_synonym point = "real \<times> real"
type_synonym operand = "point option"
type_synonym command = "string \<times> operand list"
type_synonym contour = "command list"

text \<open>
  The exceptions the script can end with: those of its own indexing and unpacking, and
  those the pens raise when the emitter calls them.
\<close>

datatype error = IndexError | ValueError | TypeError | AttributeError | AssertionError

section \<open>The contour segmenter\<close>

text \<open>
  Lines 262--280 of \<open>_glyph_to_svg_commands\<close>: the loop over the recording that cuts it
  at every \<open>moveTo\<close>. The source hands each finished contour to the splitter and then to
  the reverser before it appends it; that processing is the parameter \<open>f\<close> here, so the
  same loop gives the raw contours (\<open>f = Inr\<close>) and the processed ones. An exception in
  \<open>f\<close> leaves the loop at once.
\<close>

fun segment_loop ::
  "(contour \<Rightarrow> error + contour) \<Rightarrow> command list \<Rightarrow> contour \<Rightarrow> contour list
     \<Rightarrow> error + contour list" where
  "segment_loop f [] current_contour contours =
     (if current_contour \<noteq> [] then
        (case f current_contour of
           Inl e \<Rightarrow> Inl e
         | Inr c \<Rightarrow> Inr (contours @ [c]))
      else Inr contours)"
| "segment_loop f ((operator, operands) # rest) current_contour contours =
     (if operator = ''moveTo'' then
        (if current_contour \<noteq> [] then
           (case f current_contour of
              Inl e \<Rightarrow> Inl e
            | Inr c \<Rightarrow> segment_loop f rest [(operator, operands)] (contours @ [c]))
         else segment_loop f rest [(operator, operands)] contours)
      else segment_loop f rest (current_contour @ [(operator, operands)]) contours)"

definition segment_contours :: "command list \<Rightarrow> error + contour list" where
  "segment_contours recording = segment_loop Inr recording [] []"

section \<open>The midpoint splitter\<close>

text \<open>
  \<open>_split_contour_at_midpoint\<close>, lines 166--198. The scan keeps the last \<open>moveTo\<close>
  it meets, the last \<open>closePath\<close>/\<open>endPath\<close>, and every other command in order.
\<close>

fun split_scan ::
  "contour \<Rightarrow> command option \<Rightarrow> command option \<Rightarrow> command list
     \<Rightarrow> command option \<times> command option \<times> command list" where
  "split_scan [] move_to close_op drawing_ops = (move_to, close_op, drawing_ops)"
| "split_scan ((operator, operands) # rest) move_to close_op drawing_ops =
     (if operator = ''moveTo'' then
        split_scan rest (Some (operator, operands)) close_op drawing_ops
      else if operator = ''closePath'' \<or> operator = ''endPath'' then
        split_scan rest move_to (Some (operator, operands)) drawing_ops
      else split_scan rest move_to close_op (drawing_ops @ [(operator, operands)]))"

definition split_contour_at_midpoint :: "contour \<Rightarrow> contour" where
  "split_contour_at_midpoint contour =
     (if length contour < 3 then contour
      else
        (case split_scan contour None None [] of
           (move_to, close_op, drawing_ops) \<Rightarrow>
             if drawing_ops = [] then contour
             else
               (let midpoint = length drawing_ops div 2;
                    first_half = take midpoint drawing_ops
                in (case move_to of None \<Rightarrow> [] | Some m \<Rightarrow> [m]) @ first_half)))"

section \<open>The contour reverser\<close>

text \<open>
  \<open>_reverse_contour_manually\<close>, lines 201--253. \<open>first_present\<close> is the inner loop
  \<open>for pt in reversed(operands): if pt is not None: ...; break\<close>, applied to the
  reversed operands.
\<close>

fun first_present :: "operand list \<Rightarrow> operand" where
  "first_present [] = None"
| "first_present (pt # rest) = (if pt \<noteq> None then pt else first_present rest)"

text \<open>
  Lines 221--231, the list of points. \<open>operands[0]\<close> and \<open>operands[-1]\<close> raise
  \<open>IndexError\<close> on an empty tuple; a \<open>qCurveTo\<close> with no point at all and an operator
  of any other name append nothing.
\<close>

fun collect_points :: "command list \<Rightarrow> operand list \<Rightarrow> error + operand list" where
  "collect_points [] points = Inr points"
| "collect_points ((operator, operands) # rest) points =
     (if operator = ''lineTo'' then
        (case operands of
           [] \<Rightarrow> Inl IndexError
         | pt # _ \<Rightarrow> collect_points rest (points @ [pt]))
      else if operator = ''curveTo'' then
        (if operands = [] then Inl IndexError
         else collect_points rest (points @ [last operands]))
      else if operator = ''qCurveTo'' then
        (case first_present (rev operands) of
           None \<Rightarrow> collect_points rest points
         | Some pt \<Rightarrow> collect_points rest (points @ [Some pt]))
      else collect_points rest points)"

text \<open>
  Lines 237--251, the loop over the reversed operations with its counter \<open>i\<close>.
  \<open>points[-(i+2)]\<close> is read before the operator is looked at and raises \<open>IndexError\<close>
  when the list has fewer than \<open>i + 2\<close> points; \<open>cp1, cp2, end = operands\<close> raises
  \<open>ValueError\<close> unless there are exactly three operands.
\<close>

fun reverse_operations ::
  "operand list \<Rightarrow> nat \<Rightarrow> command list \<Rightarrow> contour \<Rightarrow> error + contour" where
  "reverse_operations points i [] result = Inr result"
| "reverse_operations points i ((operator, operands) # rest) result =
     (if length points < i + 2 then Inl IndexError
      else
        (let prev_point = points ! (length points - (i + 2)) in
         if operator = ''lineTo'' then
           reverse_operations points (i + 1) rest (result @ [(''lineTo'', [prev_point])])
         else if operator = ''curveTo'' then
           (case operands of
              [cp1, cp2, endpoint] \<Rightarrow>
                reverse_operations points (i + 1) rest
                  (result @ [(''curveTo'', [cp2, cp1, prev_point])])
            | _ \<Rightarrow> Inl ValueError)
         else if operator = ''qCurveTo'' then
           reverse_operations points (i + 1) rest
             (result @
               [(''qCurveTo'', rev (filter (\<lambda>pt. pt \<noteq> None) operands) @ [prev_point])])
         else reverse_operations points (i + 1) rest result))"

text \<open>
  Lines 209--218: the operations of a contour, its tail without a final
  \<open>closePath\<close>/\<open>endPath\<close>.
\<close>

definition strip_close :: "command list \<Rightarrow> command list" where
  "strip_close operations =
     (if operations \<noteq> [] \<and>
         (fst (last operations) = ''closePath'' \<or> fst (last operations) = ''endPath'')
      then butlast operations else operations)"

definition reverse_contour_manually :: "contour \<Rightarrow> error + contour" where
  "reverse_contour_manually contour =
     (if contour = [] \<or> length contour < 2 then Inr contour
      else if fst (hd contour) \<noteq> ''moveTo'' then Inr contour
      else
        (case snd (hd contour) of
           [] \<Rightarrow> Inl IndexError
         | move_to_point # _ \<Rightarrow>
             (let operations = strip_close (tl contour) in
              if operations = [] then Inr contour
              else
                (case collect_points operations [move_to_point] of
                   Inl e \<Rightarrow> Inl e
                 | Inr points \<Rightarrow>
                     reverse_operations points 0 (rev operations)
                       [(''moveTo'', [last points])]))))"

text \<open>
  The point list of a contour as the reverser builds it (lines 209--231), on its own,
  to state what the reverser does to it.
\<close>

definition contour_points :: "contour \<Rightarrow> error + operand list" where
  "contour_points contour =
     (case contour of
        [] \<Rightarrow> Inr []
      | (operator, operands) # rest \<Rightarrow>
          (case operands of
             [] \<Rightarrow> Inl IndexError
           | move_to_point # _ \<Rightarrow> collect_points (strip_close rest) [move_to_point]))"

section \<open>The path emitter\<close>

text \<open>
  The pens are fontTools': \<open>TransformPen(svg_pen, (1, 0, 0, -1, 0, ascent))\<close> applies
  the affine map \<open>(xx, xy, yx, yy, dx, dy)\<close> to every point of a call,
  \<open>x' = xx*x + yx*y + dx\<close> and \<open>y' = xy*x + yy*y + dy\<close>, keeps a \<open>None\<close> operand of
  \<open>qCurveTo\<close> as it is, and passes the call on to the SVG pen. The output of the model
  is the list of calls the SVG pen receives; how that pen prints them is fontTools'
  business.
\<close>

type_synonym affine = "real \<times> real \<times> real \<times> real \<times> real \<times> real"

fun transform_point :: "affine \<Rightarrow> point \<Rightarrow> point" where
  "transform_point (xx, xy, yx, yy, dx, dy) (x, y) =
     (xx * x + yx * y + dx, xy * x + yy * y + dy)"

definition transform_call :: "int \<Rightarrow> command \<Rightarrow> command" where
  "transform_call ascent cmd =
     (fst cmd, map (map_option (transform_point (1, 0, 0, - 1, 0, of_int ascent))) (snd cmd))"

text \<open>
  What \<open>getattr(transform_pen, operator)(*operands)\<close> does, for an operator with
  points as operands: the call the SVG pen receives, or the exception.
  \<^item> \<open>moveTo(pt)\<close> and \<open>lineTo(pt)\<close> take one point: any other number of operands
    is a \<open>TypeError\<close>, and so is \<open>None\<close>, which the affine map cannot unpack.
  \<^item> \<open>curveTo(*points)\<close> maps every operand, so \<open>None\<close> is a \<open>TypeError\<close>; the
    SVG pen asserts that it gets at least one point.
  \<^item> \<open>qCurveTo(*points)\<close> reads \<open>points[-1]\<close> (\<open>IndexError\<close> without operands),
    maps every operand but a final \<open>None\<close> (\<open>TypeError\<close> on another \<open>None\<close>), and
    the SVG pen, given a final \<open>None\<close>, reads \<open>points[-2]\<close> (\<open>IndexError\<close> when
    \<open>None\<close> is the only operand).
  \<^item> \<open>closePath()\<close> and \<open>endPath()\<close> take no operand.
  \<^item> Any other operator is a name the pen has no method for: \<open>AttributeError\<close>.
    (A recording holds two more operators, \<open>addComponent\<close> and
    \<open>addVarComponent\<close>; their operands are a glyph name and a transformation, not
    points, so they are no commands of this model.)
\<close>

definition transform_pen :: "int \<Rightarrow> command \<Rightarrow> error + command" where
  "transform_pen ascent cmd =
     (let operator = fst cmd; operands = snd cmd in
      if operator = ''moveTo'' \<or> operator = ''lineTo'' then
        (if length operands \<noteq> 1 \<or> None \<in> set operands then Inl TypeError
         else Inr (transform_call ascent cmd))
      else if operator = ''curveTo'' then
        (if None \<in> set operands then Inl TypeError
         else if operands = [] then Inl AssertionError
         else Inr (transform_call ascent cmd))
      else if operator = ''qCurveTo'' then
        (if operands = [] then Inl IndexError
         else if None \<in> set (butlast operands) then Inl TypeError
         else if operands = [None] then Inl IndexError
         else Inr (transform_call ascent cmd))
      else if operator = ''closePath'' \<or> operator = ''endPath'' then
        (if operands = [] then Inr cmd else Inl TypeError)
      else Inl AttributeError)"

definition points_close :: "point \<Rightarrow> point \<Rightarrow> real \<Rightarrow> bool" where
  "points_close p1 p2 tolerance =
     (\<bar>fst p1 - fst p2\<bar> \<le> tolerance \<and> \<bar>snd p1 - snd p2\<bar> \<le> tolerance)"

definition default_tolerance :: real where
  "default_tolerance = 1 / 2"

definition get_last_point :: "string \<Rightarrow> operand list \<Rightarrow> operand" where
  "get_last_point operator operands =
     (if operands = [] then None
      else if operator = ''qCurveTo'' then first_present (rev operands)
      else last operands)"

text \<open>The three tracking variables of lines 292--294.\<close>

record tracking =
  contour_start :: "point option"
  last_point :: "point option"
  qcurve_closed :: bool

definition initial_tracking :: tracking where
  "initial_tracking = \<lparr>contour_start = None, last_point = None, qcurve_closed = False\<rparr>"

definition reset_tracking :: tracking where
  "reset_tracking = \<lparr>contour_start = None, last_point = None, qcurve_closed = False\<rparr>"

definition track_point :: "tracking \<Rightarrow> string \<Rightarrow> operand list \<Rightarrow> tracking" where
  "track_point st operator operands =
     st\<lparr>last_point :=
           (case get_last_point operator operands of
              None \<Rightarrow> last_point st
            | Some p \<Rightarrow> Some p),
        qcurve_closed := False\<rparr>"

text \<open>
  One turn of the loop of lines 296--333: the tracking variables and the calls made so
  far, before and after one command. \<open>operands[0]\<close> of a \<open>moveTo\<close> without operands
  raises \<open>IndexError\<close> before the pen is called; for every other operator the pen is
  called first, and its exception ends the loop. \<open>transform_pen.closePath()\<close> is called
  without the operands of the command.
\<close>

fun emit_command ::
  "int \<Rightarrow> tracking \<times> command list \<Rightarrow> command \<Rightarrow> error + tracking \<times> command list" where
  "emit_command ascent (st, calls) (operator, operands) =
     (if operator = ''moveTo'' then
        (case operands of
           [] \<Rightarrow> Inl IndexError
         | pt # _ \<Rightarrow>
             (case transform_pen ascent (operator, operands) of
                Inl e \<Rightarrow> Inl e
              | Inr call \<Rightarrow>
                  Inr (\<lparr>contour_start = pt, last_point = pt, qcurve_closed = False\<rparr>,
                       calls @ [call])))
      else if operator = ''lineTo'' \<or> operator = ''curveTo'' then
        (case transform_pen ascent (operator, operands) of
           Inl e \<Rightarrow> Inl e
         | Inr call \<Rightarrow> Inr (track_point st operator operands, calls @ [call]))
      else if operator = ''qCurveTo'' then
        (case transform_pen ascent (operator, operands) of
           Inl e \<Rightarrow> Inl e
         | Inr call \<Rightarrow>
             if operands \<noteq> [] \<and> last operands = None \<and> contour_start st \<noteq> None then
               Inr (st\<lparr>last_point := contour_start st, qcurve_closed := True\<rparr>,
                    calls @ [call])
             else Inr (track_point st operator operands, calls @ [call]))
      else if operator = ''closePath'' then
        Inr (reset_tracking,
             (case contour_start st of
                None \<Rightarrow> calls
              | Some start \<Rightarrow>
                  (case last_point st of
                     None \<Rightarrow> calls
                   | Some lp \<Rightarrow>
                       if points_close lp start default_tolerance \<or> qcurve_closed st
                       then calls @ [(''closePath'', [])]
                       else calls)))
      else if operator = ''endPath'' then Inr (reset_tracking, calls)
      else
        (case transform_pen ascent (operator, operands) of
           Inl e \<Rightarrow> Inl e
         | Inr call \<Rightarrow> Inr (track_point st operator operands, calls @ [call])))"

fun emit_commands ::
  "int \<Rightarrow> command list \<Rightarrow> tracking \<times> command list \<Rightarrow> error + tracking \<times> command list" where
  "emit_commands ascent [] s = Inr s"
| "emit_commands ascent (cmd # rest) s =
     (case emit_command ascent s cmd of
        Inl e \<Rightarrow> Inl e
      | Inr s' \<Rightarrow> emit_commands ascent rest s')"

text \<open>
  \<open>_glyph_to_svg_commands\<close>, lines 256--335, from the recording of the glyph to the
  calls the SVG pen receives.
\<close>

definition process_contour :: "contour \<Rightarrow> error + contour" where
  "process_contour current_contour =
     reverse_contour_manually (split_contour_at_midpoint current_contour)"

definition glyph_to_svg_commands :: "command list \<Rightarrow> int \<Rightarrow> error + command list" where
  "glyph_to_svg_commands recording ascent =
     (case segment_loop process_contour recording [] [] of
        Inl e \<Rightarrow> Inl e
      | Inr contours \<Rightarrow>
          (case emit_commands ascent (concat contours) (initial_tracking, []) of
             Inl e \<Rightarrow> Inl e
           | Inr (st, calls) \<Rightarrow> Inr calls))"

section \<open>Vertical metrics\<close>

text \<open>
  \<open>get_vertical_metrics\<close>, lines 94--113. Of the font only the three tables the function
  reads are kept: \<open>head.unitsPerEm\<close>, and the \<open>hhea\<close> and \<open>OS/2\<close> tables when the font
  has them, each with its two fields. \<open>py_or\<close> is Python's \<open>a or b\<close> on an optional
  integer: \<open>None\<close> and \<open>0\<close> are both false. Python's \<open>//\<close> rounds towards minus
  infinity, as \<open>div\<close> on \<open>int\<close> does, and \<open>-units_per_em // 4\<close> negates first.
\<close>

record ttfont =
  unitsPerEm :: int
  hhea_table :: "(int \<times> int) option"
  os2_table :: "(int \<times> int) option"

definition py_or :: "int option \<Rightarrow> int \<Rightarrow> int" where
  "py_or a b = (case a of None \<Rightarrow> b | Some v \<Rightarrow> if v = 0 then b else v)"

definition get_vertical_metrics :: "ttfont \<Rightarrow> int \<times> int \<times> int" where
  "get_vertical_metrics font =
     (let units_per_em = unitsPerEm font;
          from_hhea =
            (case hhea_table font of
               None \<Rightarrow> (None, None)
             | Some (a, d) \<Rightarrow> (Some a, Some d));
          from_os2 =
            (case os2_table font of
               None \<Rightarrow> from_hhea
             | Some (typo_ascender, typo_descender) \<Rightarrow>
                 if fst from_hhea = None \<or> snd from_hhea = None
                 then (Some (py_or (fst from_hhea) typo_ascender),
                       Some (py_or (snd from_hhea) typo_descender))
                 else from_hhea)
      in (case from_os2 of
            (Some a, Some d) \<Rightarrow> (units_per_em, a, d)
          | _ \<Rightarrow> (units_per_em, units_per_em, (- units_per_em) div 4)))"

section \<open>Shapes of contours\<close>

text \<open>
  The predicates the statements below use. A drawing command is one the splitter puts
  into \<open>drawing_ops\<close>: any operator but \<open>moveTo\<close>, \<open>closePath\<close> and \<open>endPath\<close>.
\<close>

definition is_drawing :: "command \<Rightarrow> bool" where
  "is_drawing cmd =
     (fst cmd \<noteq> ''moveTo'' \<and> fst cmd \<noteq> ''closePath'' \<and> fst cmd \<noteq> ''endPath'')"

text \<open>
  A contour of the data model: one \<open>moveTo\<close>, then drawing commands, then at most one
  \<open>closePath\<close> or \<open>endPath\<close>.
\<close>

definition is_contour :: "contour \<Rightarrow> bool" where
  "is_contour contour =
     (case contour of
        [] \<Rightarrow> False
      | m # rest \<Rightarrow>
          fst m = ''moveTo'' \<and> list_all is_drawing (butlast rest) \<and>
          (rest = [] \<or> fst (last rest) \<noteq> ''moveTo''))"

text \<open>
  A contour with no drawing command: a \<open>moveTo\<close> with its point, alone or followed by
  one \<open>closePath\<close> or \<open>endPath\<close>.
\<close>

definition degenerate_contour :: "contour \<Rightarrow> bool" where
  "degenerate_contour contour =
     (case contour of
        [] \<Rightarrow> False
      | m # rest \<Rightarrow>
          fst m = ''moveTo'' \<and> snd m \<noteq> [] \<and>
          (rest = [] \<or>
           (length rest = 1 \<and>
            (fst (hd rest) = ''closePath'' \<or> fst (hd rest) = ''endPath''))))"

text \<open>
  A contour of straight lines and cubic curves only, every command with the operands
  its kind takes: one point for \<open>moveTo\<close> and \<open>lineTo\<close>, three for \<open>curveTo\<close>.
\<close>

definition line_or_curve :: "command \<Rightarrow> bool" where
  "line_or_curve cmd =
     ((fst cmd = ''lineTo'' \<and> length (snd cmd) = 1) \<or>
      (fst cmd = ''curveTo'' \<and> length (snd cmd) = 3))"

definition line_curve_contour :: "contour \<Rightarrow> bool" where
  "line_curve_contour contour =
     (case contour of
        [] \<Rightarrow> False
      | m # operations \<Rightarrow>
          fst m = ''moveTo'' \<and> length (snd m) = 1 \<and> list_all line_or_curve operations)"

text \<open>
  A \<open>qCurveTo\<close> whose last operand is \<open>None\<close>: the test of line 310 without its
  \<open>contour_start\<close> part.
\<close>

definition implicit_close :: "command \<Rightarrow> bool" where
  "implicit_close cmd =
     (fst cmd = ''qCurveTo'' \<and> snd cmd \<noteq> [] \<and> last (snd cmd) = None)"

text \<open>
  A command the pens take: \<open>moveTo\<close> and \<open>lineTo\<close> with one point, \<open>curveTo\<close> with
  three points, \<open>qCurveTo\<close> with at least one operand, every operand a point but
  possibly the last, and not \<open>None\<close> alone. A drawing command of that kind is one that
  is not \<open>moveTo\<close>.
\<close>

definition pen_command :: "command \<Rightarrow> bool" where
  "pen_command cmd =
     (((fst cmd = ''moveTo'' \<or> fst cmd = ''lineTo'') \<and>
         length (snd cmd) = 1 \<and> None \<notin> set (snd cmd)) \<or>
      (fst cmd = ''curveTo'' \<and> length (snd cmd) = 3 \<and> None \<notin> set (snd cmd)) \<or>
      (fst cmd = ''qCurveTo'' \<and> snd cmd \<noteq> [] \<and> snd cmd \<noteq> [None] \<and>
         None \<notin> set (butlast (snd cmd))))"

definition drawing_command :: "command \<Rightarrow> bool" where
  "drawing_command cmd = (pen_command cmd \<and> fst cmd \<noteq> ''moveTo'')"

text \<open>The operators the reverser knows.\<close>

definition known_kind :: "string \<Rightarrow> bool" where
  "known_kind operator =
     (operator = ''moveTo'' \<or> operator = ''lineTo'' \<or> operator = ''curveTo'' \<or>
      operator = ''qCurveTo'')"

text \<open>
  The end point of a line or cubic curve and the command that draws it backwards to
  \<open>prev\<close>, as lines 223--226 and 241--246 compute them; they describe the reverser's
  result on a contour of lines and cubic curves.
\<close>

definition end_point :: "command \<Rightarrow> operand" where
  "end_point cmd = (if fst cmd = ''lineTo'' then hd (snd cmd) else last (snd cmd))"

definition backwards :: "command \<Rightarrow> operand \<Rightarrow> command" where
  "backwards cmd prev =
     (if fst cmd = ''lineTo'' then (''lineTo'', [prev])
      else (''curveTo'', [snd cmd ! 1, snd cmd ! 0, prev]))"

section \<open>Segmentation\<close>

lemma segment_loop_Inr_concat:
  "\<exists>cs. segment_loop Inr cmds cur acc = Inr cs \<and> concat cs = concat acc @ cur @ cmds"
proof (induction cmds arbitrary: cur acc)
  case Nil
  show ?case by simp
next
  case (Cons cmd cmds)
  obtain operator operands where cmd: "cmd = (operator, operands)"
    by (cases cmd)
  show ?case
  proof (cases "operator = ''moveTo''")
    case True
    show ?thesis
    proof (cases "cur = []")
      case True
      from Cons.IH [of "[(operator, operands)]" acc] \<open>operator = ''moveTo''\<close> True cmd
      show ?thesis by simp
    next
      case False
      from Cons.IH [of "[(operator, operands)]" "acc @ [cur]"] \<open>operator = ''moveTo''\<close> False cmd
      show ?thesis by simp
    qed
  next
    case False
    from Cons.IH [of "cur @ [(operator, operands)]" acc] False cmd
    show ?thesis by simp
  qed
qed

text \<open>
  C7. Concatenating, in order, the contours the segmenter cuts a command stream into
  gives the command stream back: no command is lost, duplicated or moved. The
  segmenter raises nothing on any stream.
\<close>

theorem segment_concat_identity:
  "\<exists>cs. segment_contours recording = Inr cs \<and> concat cs = recording"
  using segment_loop_Inr_concat [of recording "[]" "[]"]
  by (simp add: segment_contours_def)

section \<open>The midpoint splitter keeps the first half\<close>

lemma split_scan_drawing:
  "snd (snd (split_scan c mv cl dr)) = dr @ filter is_drawing c"
  by (induction c arbitrary: mv cl dr) (auto simp: is_drawing_def)

lemma split_scan_move_to:
  "list_all (\<lambda>cmd. fst cmd \<noteq> ''moveTo'') c \<Longrightarrow> fst (split_scan c mv cl dr) = mv"
  by (induction c arbitrary: mv cl dr) auto

lemma split_general:
  assumes "3 \<le> length c" "filter is_drawing c \<noteq> []" "fst m = ''moveTo''" "c = m # rest"
    "list_all (\<lambda>cmd. fst cmd \<noteq> ''moveTo'') rest"
  shows "split_contour_at_midpoint c =
     m # take (length (filter is_drawing c) div 2) (filter is_drawing c)"
proof -
  obtain mv cl dr where sc: "split_scan c None None [] = (mv, cl, dr)"
    by (cases "split_scan c None None []") auto
  have dr: "dr = filter is_drawing c"
    using split_scan_drawing [of c None None "[]"] sc by simp
  have "fst (split_scan rest (Some m) None []) = Some m"
    using assms(5) by (rule split_scan_move_to)
  moreover have "split_scan c None None [] = split_scan rest (Some m) None []"
    using assms(3,4) by (cases m) simp
  ultimately have "fst (split_scan c None None []) = Some m" by simp
  then have mv: "mv = Some m" by (simp add: sc)
  show ?thesis
    using assms(1,2) sc dr mv by (simp add: split_contour_at_midpoint_def Let_def)
qed

lemma is_contour_rest:
  assumes "is_contour (m # rest)"
  shows "list_all (\<lambda>cmd. fst cmd \<noteq> ''moveTo'') rest"
proof (cases "rest = []")
  case True then show ?thesis by simp
next
  case False
  then have r: "rest = butlast rest @ [last rest]" by simp
  have "list_all (\<lambda>cmd. fst cmd \<noteq> ''moveTo'') (butlast rest)"
    using assms by (auto simp: is_contour_def list_all_iff is_drawing_def)
  moreover have "fst (last rest) \<noteq> ''moveTo''"
    using assms False by (simp add: is_contour_def)
  ultimately have "list_all (\<lambda>cmd. fst cmd \<noteq> ''moveTo'') (butlast rest @ [last rest])"
    by simp
  with r show ?thesis by simp
qed

lemma is_contour_drawing:
  assumes "is_contour (m # rest)" "3 \<le> length (m # rest)"
  shows "filter is_drawing (m # rest) \<noteq> []"
proof -
  from assms(2) obtain a b rest' where r: "rest = a # b # rest'"
    by (cases rest; cases "tl rest") auto
  then have "a \<in> set (butlast rest)" by simp
  moreover have "list_all is_drawing (butlast rest)"
    using assms(1) by (simp add: is_contour_def)
  ultimately have "is_drawing a" by (simp add: list_all_iff)
  then show ?thesis using r by (auto simp: filter_empty_conv)
qed

text \<open>
  C2. For a contour of the data model: with fewer than three commands the splitter
  returns it unchanged; otherwise the result is its \<open>moveTo\<close> followed by the first
  \<open>n div 2\<close> of its \<open>n\<close> drawing commands, in their order, so that a final
  \<open>closePath\<close> or \<open>endPath\<close> is gone.
\<close>

theorem split_contour_spec:
  assumes "is_contour c"
  shows "(length c < 3 \<longrightarrow> split_contour_at_midpoint c = c) \<and>
     (3 \<le> length c \<longrightarrow>
        split_contour_at_midpoint c =
          hd c # take (length (filter is_drawing c) div 2) (filter is_drawing c))"
proof -
  from assms obtain m rest where c: "c = m # rest" and m: "fst m = ''moveTo''"
    by (cases c) (auto simp: is_contour_def)
  have short: "length c < 3 \<longrightarrow> split_contour_at_midpoint c = c"
    by (simp add: split_contour_at_midpoint_def)
  have long: "3 \<le> length c \<longrightarrow>
        split_contour_at_midpoint c =
          hd c # take (length (filter is_drawing c) div 2) (filter is_drawing c)"
  proof
    assume len: "3 \<le> length c"
    have "split_contour_at_midpoint c =
       m # take (length (filter is_drawing c) div 2) (filter is_drawing c)"
      using len is_contour_drawing [of m rest] assms m c is_contour_rest [of m rest]
      by (intro split_general [where rest = rest]) auto
    then show "split_contour_at_midpoint c =
          hd c # take (length (filter is_drawing c) div 2) (filter is_drawing c)"
      using c by simp
  qed
  from short long show ?thesis by blast
qed

theorem split_contour_spec_witness:
  "is_contour [(''moveTo'', [Some (0, 0)]), (''lineTo'', [Some (50, 0)]),
      (''lineTo'', [Some (100, 50)]), (''lineTo'', [Some (50, 0)]),
      (''lineTo'', [Some (0, 0)]), (''closePath'', [])] \<and>
   split_contour_at_midpoint [(''moveTo'', [Some (0, 0)]), (''lineTo'', [Some (50, 0)]),
      (''lineTo'', [Some (100, 50)]), (''lineTo'', [Some (50, 0)]),
      (''lineTo'', [Some (0, 0)]), (''closePath'', [])] =
     [(''moveTo'', [Some (0, 0)]), (''lineTo'', [Some (50, 0)]),
      (''lineTo'', [Some (100, 50)])] \<and>
   is_contour [(''moveTo'', [Some (0, 0)]), (''closePath'', [])] \<and>
   split_contour_at_midpoint [(''moveTo'', [Some (0, 0)]), (''closePath'', [])] =
     [(''moveTo'', [Some (0, 0)]), (''closePath'', [])]"
proof -
  let ?c = "[(''moveTo'', [Some (0::real, 0::real)]), (''lineTo'', [Some (50, 0)]),
      (''lineTo'', [Some (100, 50)]), (''lineTo'', [Some (50, 0)]),
      (''lineTo'', [Some (0, 0)]), (''closePath'', [])]"
  let ?d = "[(''moveTo'', [Some (0::real, 0::real)]), (''closePath'', [])]"
  have c: "is_contour ?c" by (simp add: is_contour_def is_drawing_def)
  have d: "is_contour ?d" by (simp add: is_contour_def is_drawing_def)
  show ?thesis
    using c d split_contour_spec [OF c] split_contour_spec [OF d]
    by (simp add: is_drawing_def)
qed

section \<open>Contours without drawing commands\<close>

text \<open>
  C8. A contour with no drawing command after its \<open>moveTo\<close> (the \<open>moveTo\<close> alone, or
  followed by one \<open>closePath\<close> or \<open>endPath\<close>) comes back unchanged from the splitter
  and from the reverser, its final command included.
\<close>

theorem degenerate_contour_preserved:
  assumes "degenerate_contour c"
  shows "split_contour_at_midpoint c = c \<and> reverse_contour_manually c = Inr c"
proof -
  from assms obtain m rest where c: "c = m # rest"
    and m: "fst m = ''moveTo''" "snd m \<noteq> []"
    and rest: "rest = [] \<or>
      (length rest = 1 \<and> (fst (hd rest) = ''closePath'' \<or> fst (hd rest) = ''endPath''))"
    by (cases c) (auto simp: degenerate_contour_def)
  have len: "length c < 3" using c rest by auto
  then have split: "split_contour_at_midpoint c = c"
    by (simp add: split_contour_at_midpoint_def)
  have reverse: "reverse_contour_manually c = Inr c"
  proof (cases "rest = []")
    case True
    then show ?thesis using c by (simp add: reverse_contour_manually_def)
  next
    case False
    with rest obtain x where x: "rest = [x]"
      and close: "fst x = ''closePath'' \<or> fst x = ''endPath''"
      by (cases rest) auto
    have "strip_close (tl c) = []"
      using c x close by (auto simp: strip_close_def)
    then show ?thesis
      using c m x by (cases "snd m") (simp_all add: reverse_contour_manually_def)
  qed
  from split reverse show ?thesis by simp
qed

theorem degenerate_contour_preserved_witness:
  "degenerate_contour [(''moveTo'', [Some (3, 4)]), (''closePath'', [])] \<and>
   split_contour_at_midpoint [(''moveTo'', [Some (3, 4)]), (''closePath'', [])] =
     [(''moveTo'', [Some (3, 4)]), (''closePath'', [])] \<and>
   reverse_contour_manually [(''moveTo'', [Some (3, 4)]), (''closePath'', [])] =
     Inr [(''moveTo'', [Some (3, 4)]), (''closePath'', [])]"
proof -
  have d: "degenerate_contour [(''moveTo'', [Some (3, 4)]), (''closePath'', [])]"
    by (simp add: degenerate_contour_def)
  show ?thesis
    using d degenerate_contour_preserved [OF d] by simp
qed

section \<open>The coordinate flip\<close>

lemma transform_call_flip:
  "transform_call ascent (operator, operands) =
     (operator, map (map_option (\<lambda>(x, y). (x, of_int ascent - y))) operands)"
proof -
  have "transform_point (1, 0, 0, - 1, 0, of_int ascent) = (\<lambda>(x, y). (x, of_int ascent - y))"
    by (auto simp: fun_eq_iff)
  then show ?thesis by (simp add: transform_call_def)
qed

lemma transform_pen_pen_command:
  assumes "pen_command cmd"
  shows "transform_pen ascent cmd = Inr (transform_call ascent cmd)"
proof -
  consider (point) "fst cmd = ''moveTo'' \<or> fst cmd = ''lineTo''" "length (snd cmd) = 1"
      "None \<notin> set (snd cmd)"
    | (curve) "fst cmd = ''curveTo''" "length (snd cmd) = 3" "None \<notin> set (snd cmd)"
    | (qcurve) "fst cmd = ''qCurveTo''" "snd cmd \<noteq> []" "snd cmd \<noteq> [None]"
      "None \<notin> set (butlast (snd cmd))"
    using assms unfolding pen_command_def by blast
  then show ?thesis
  proof cases
    case point
    then show ?thesis by (auto simp: transform_pen_def Let_def)
  next
    case curve
    then have "snd cmd \<noteq> []" by auto
    with curve show ?thesis by (simp add: transform_pen_def Let_def)
  next
    case qcurve
    then show ?thesis by (simp add: transform_pen_def Let_def)
  qed
qed

lemma pen_command_kinds:
  assumes "pen_command cmd"
  shows "fst cmd = ''moveTo'' \<or> fst cmd = ''lineTo'' \<or> fst cmd = ''curveTo'' \<or>
     fst cmd = ''qCurveTo''"
  using assms unfolding pen_command_def by blast

text \<open>
  C6. Every command with points that the emitter passes to the pens (\<open>moveTo\<close> and
  \<open>lineTo\<close> with their point, \<open>curveTo\<close> with its three points, \<open>qCurveTo\<close> with its
  points and possibly a final \<open>None\<close>) reaches the serializer with each point \<open>(x, y)\<close>
  replaced by \<open>(x, ascent - y)\<close>. With \<open>ascent = 750\<close> the point \<open>(200, 300)\<close>
  becomes \<open>(200, 450)\<close>.
\<close>

theorem emitter_flips_points:
  assumes "pen_command (operator, operands)"
  shows "\<exists>st'. emit_command ascent (st, calls) (operator, operands) =
     Inr (st', calls @
       [(operator, map (map_option (\<lambda>(x, y). (x, of_int ascent - y))) operands)])"
proof -
  have pen: "transform_pen ascent (operator, operands) =
      Inr (operator, map (map_option (\<lambda>(x, y). (x, of_int ascent - y))) operands)"
    using transform_pen_pen_command [OF assms] by (simp only: transform_call_flip)
  from pen_command_kinds [OF assms]
  consider (move) "operator = ''moveTo''" | (line) "operator = ''lineTo''"
    | (curve) "operator = ''curveTo''" | (qcurve) "operator = ''qCurveTo''"
    by auto
  then show ?thesis
  proof cases
    case move
    with assms have "operands \<noteq> []" by (auto simp: pen_command_def)
    then obtain pt rest where "operands = pt # rest" by (cases operands) auto
    with move pen show ?thesis by simp
  next
    case line
    with pen show ?thesis by simp
  next
    case curve
    with pen show ?thesis by simp
  next
    case qcurve
    with pen show ?thesis by simp
  qed
qed

theorem emitter_flips_points_witness:
  "pen_command (''lineTo'', [Some (200, 300)]) \<and>
   (\<exists>st'. emit_command 750 (initial_tracking, []) (''lineTo'', [Some (200, 300)]) =
     Inr (st', [(''lineTo'', [Some (200, 450)])]))"
proof -
  have pen: "pen_command (''lineTo'', [Some (200, 300)])"
    by (simp add: pen_command_def)
  from emitter_flips_points [OF pen, of 750 initial_tracking "[]"] pen
  show ?thesis by simp
qed

section \<open>The fallback of the vertical metrics\<close>

text \<open>
  C9, as the code has it. A font with neither an \<open>hhea\<close> nor an \<open>OS/2\<close> table gets
  \<open>ascent = units_per_em\<close> and \<open>descent = floor (- units_per_em / 4)\<close>: the quotient is
  rounded towards minus infinity, so it is \<open>- units_per_em / 4\<close> itself exactly when
  \<open>units_per_em\<close> is a multiple of 4.
\<close>

theorem metrics_fallback:
  assumes "hhea_table font = None" and "os2_table font = None"
  shows "get_vertical_metrics font =
     (unitsPerEm font, unitsPerEm font, \<lfloor>- real_of_int (unitsPerEm font) / 4\<rfloor>) \<and>
     (real_of_int (snd (snd (get_vertical_metrics font))) = - real_of_int (unitsPerEm font) / 4
        \<longleftrightarrow> 4 dvd unitsPerEm font)"
proof -
  have fl: "\<lfloor>- real_of_int (unitsPerEm font) / 4\<rfloor> = (- unitsPerEm font) div 4"
    using floor_divide_of_int_eq [of "- unitsPerEm font" 4, where ?'a = real] by simp
  have val: "get_vertical_metrics font =
     (unitsPerEm font, unitsPerEm font, (- unitsPerEm font) div 4)"
    using assms by (simp add: get_vertical_metrics_def Let_def)
  have "(real_of_int ((- unitsPerEm font) div 4) = - real_of_int (unitsPerEm font) / 4)
     \<longleftrightarrow> 4 dvd unitsPerEm font"
  proof
    assume "real_of_int ((- unitsPerEm font) div 4) = - real_of_int (unitsPerEm font) / 4"
    then have "real_of_int (((- unitsPerEm font) div 4) * 4) = real_of_int (- unitsPerEm font)"
      by simp
    then have "((- unitsPerEm font) div 4) * 4 = - unitsPerEm font"
      by (simp only: of_int_eq_iff)
    then have "4 dvd - unitsPerEm font" by (metis dvd_triv_right)
    then show "4 dvd unitsPerEm font" by simp
  next
    assume "4 dvd unitsPerEm font"
    then obtain k where k: "unitsPerEm font = 4 * k" by (auto elim: dvdE)
    have "- (4 * k) = 4 * (- k)" by simp
    then have "(- (4 * k)) div 4 = - k" by (simp only: nonzero_mult_div_cancel_left)
    with k show "real_of_int ((- unitsPerEm font) div 4) = - real_of_int (unitsPerEm font) / 4"
      by simp
  qed
  with val fl show ?thesis by simp
qed

theorem metrics_fallback_witness:
  "get_vertical_metrics \<lparr>unitsPerEm = 1000, hhea_table = None, os2_table = None\<rparr> =
     (1000, 1000, - 250)"
  using metrics_fallback [of "\<lparr>unitsPerEm = 1000, hhea_table = None, os2_table = None\<rparr>"]
  by simp

theorem metrics_fallback_counterexample:
  "get_vertical_metrics \<lparr>unitsPerEm = 1001, hhea_table = None, os2_table = None\<rparr> =
     (1001, 1001, - 251) \<and>
   real_of_int (snd (snd (get_vertical_metrics
     \<lparr>unitsPerEm = 1001, hhea_table = None, os2_table = None\<rparr>))) \<noteq> - 1001 / 4 \<and>
   snd (snd (get_vertical_metrics
     \<lparr>unitsPerEm = 1001, hhea_table = None, os2_table = None\<rparr>)) \<noteq> - (1001 div 4)"
  by (simp add: get_vertical_metrics_def Let_def)

section \<open>The retraced line, end to end\<close>

lemma retrace_value:
  "glyph_to_svg_commands
     [(''moveTo'', [Some (0, 0)]), (''lineTo'', [Some (50, 0)]),
      (''lineTo'', [Some (100, 50)]), (''lineTo'', [Some (50, 0)]),
      (''lineTo'', [Some (0, 0)]), (''closePath'', [])] 500 =
   Inr [(''moveTo'', [Some (100, 450)]), (''lineTo'', [Some (50, 500)]),
        (''lineTo'', [Some (0, 500)])]"
  by (simp add: glyph_to_svg_commands_def process_contour_def
      split_contour_at_midpoint_def reverse_contour_manually_def strip_close_def
      initial_tracking_def transform_pen_def transform_call_def track_point_def
      get_last_point_def)

text \<open>
  C1, as the code has it. The outline that draws \<open>(0,0)\<close>, \<open>(50,0)\<close>, \<open>(100,50)\<close> and
  retraces it has four drawing commands; the splitter keeps two of them, so three points
  remain, and after reversal and the flip with \<open>ascent = 500\<close> the serializer receives the
  open path from \<open>(100,450)\<close> over \<open>(50,500)\<close> to \<open>(0,500)\<close>, with no \<open>closePath\<close>.
\<close>

theorem retrace_end_to_end:
  "\<exists>calls. glyph_to_svg_commands
     [(''moveTo'', [Some (0, 0)]), (''lineTo'', [Some (50, 0)]),
      (''lineTo'', [Some (100, 50)]), (''lineTo'', [Some (50, 0)]),
      (''lineTo'', [Some (0, 0)]), (''closePath'', [])] 500 = Inr calls \<and>
     calls = [(''moveTo'', [Some (100, 450)]), (''lineTo'', [Some (50, 500)]),
        (''lineTo'', [Some (0, 500)])] \<and>
     ''closePath'' \<notin> fst ` set calls"
  by (simp add: retrace_value)

text \<open>The two-point path from \<open>(0,500)\<close> to \<open>(50,500)\<close> is not what comes out.\<close>

theorem retrace_end_to_end_counterexample:
  "glyph_to_svg_commands
     [(''moveTo'', [Some (0, 0)]), (''lineTo'', [Some (50, 0)]),
      (''lineTo'', [Some (100, 50)]), (''lineTo'', [Some (50, 0)]),
      (''lineTo'', [Some (0, 0)]), (''closePath'', [])] 500 \<noteq>
   Inr [(''moveTo'', [Some (0, 500)]), (''lineTo'', [Some (50, 500)])] \<and>
   glyph_to_svg_commands
     [(''moveTo'', [Some (0, 0)]), (''lineTo'', [Some (50, 0)]),
      (''lineTo'', [Some (100, 50)]), (''lineTo'', [Some (50, 0)]),
      (''lineTo'', [Some (0, 0)]), (''closePath'', [])] 500 \<noteq>
   Inr [(''moveTo'', [Some (50, 500)]), (''lineTo'', [Some (0, 500)])]"
  by (simp add: retrace_value)

section \<open>The reverser and a \<open>qCurveTo\<close> closed by \<open>None\<close>\<close>

text \<open>
  C3, on the code. For the contour \<open>moveTo (0,0); qCurveTo ((10,10), (20,0), None)\<close> the
  point the reverser records for the \<open>qCurveTo\<close> is its last control point \<open>(20,0)\<close>, not
  the start \<open>(0,0)\<close> of the contour, and the reversed contour begins with a \<open>moveTo\<close> at
  \<open>(20,0)\<close>.
\<close>

theorem reverse_implicit_close_value:
  "contour_points
     [(''moveTo'', [Some (0, 0)]), (''qCurveTo'', [Some (10, 10), Some (20, 0), None])] =
     Inr [Some (0, 0), Some (20, 0)] \<and>
   reverse_contour_manually
     [(''moveTo'', [Some (0, 0)]), (''qCurveTo'', [Some (10, 10), Some (20, 0), None])] =
     Inr [(''moveTo'', [Some (20, 0)]),
          (''qCurveTo'', [Some (20, 0), Some (10, 10), Some (0, 0)])]"
  by (simp add: contour_points_def reverse_contour_manually_def strip_close_def)

section \<open>The reverser and operators it does not know\<close>

lemma collect_points_length:
  "collect_points ops pts = Inr pts' \<Longrightarrow>
     length pts' \<le> length pts + length (filter (\<lambda>cmd. known_kind (fst cmd)) ops)"
proof (induction ops arbitrary: pts)
  case Nil
  then show ?case by simp
next
  case (Cons cmd ops)
  obtain operator operands where cmd: "cmd = (operator, operands)" by (cases cmd)
  consider (line) "operator = ''lineTo''" | (curve) "operator = ''curveTo''"
    | (qcurve) "operator = ''qCurveTo''"
    | (other) "operator \<noteq> ''lineTo''" "operator \<noteq> ''curveTo''" "operator \<noteq> ''qCurveTo''"
    by blast
  then show ?case
  proof cases
    case line
    with Cons.prems cmd obtain pt rest where "operands = pt # rest"
      and "collect_points ops (pts @ [pt]) = Inr pts'"
      by (cases operands) auto
    from Cons.IH [OF this(2)] line cmd show ?thesis by (simp add: known_kind_def)
  next
    case curve
    with Cons.prems cmd have "collect_points ops (pts @ [last operands]) = Inr pts'"
      by (cases "operands = []") auto
    from Cons.IH [OF this] curve cmd show ?thesis by (simp add: known_kind_def)
  next
    case qcurve
    show ?thesis
    proof (cases "first_present (rev operands)")
      case None
      with Cons.prems cmd qcurve have "collect_points ops pts = Inr pts'" by simp
      from Cons.IH [OF this] qcurve cmd show ?thesis by (simp add: known_kind_def)
    next
      case (Some pt)
      with Cons.prems cmd qcurve have "collect_points ops (pts @ [Some pt]) = Inr pts'"
        by simp
      from Cons.IH [OF this] qcurve cmd show ?thesis by (simp add: known_kind_def)
    qed
  next
    case other
    with Cons.prems cmd have "collect_points ops pts = Inr pts'" by simp
    from Cons.IH [OF this] other cmd show ?thesis by simp
  qed
qed

lemma reverse_operations_short:
  "ops \<noteq> [] \<Longrightarrow> length pts < i + length ops + 1 \<Longrightarrow>
     \<exists>e. reverse_operations pts i ops res = Inl e"
proof (induction ops arbitrary: i res)
  case Nil
  then show ?case by simp
next
  case (Cons cmd ops)
  obtain operator operands where cmd: "cmd = (operator, operands)" by (cases cmd)
  show ?case
  proof (cases "ops = []")
    case True
    with Cons.prems cmd show ?thesis by simp
  next
    case False
    have len: "length pts < (i + 1) + length ops + 1" using Cons.prems by simp
    have step: "\<exists>e. reverse_operations pts (i + 1) ops r = Inl e" for r
      using Cons.IH [OF False len] by simp
    show ?thesis
      using cmd step
      by (auto simp: Let_def split: list.splits)
  qed
qed

text \<open>
  Whenever an operation of the contour is of a kind the reverser does not know, the
  list of points is too short for the last read of \<open>points[-(i+2)]\<close>: the reverser
  raises and returns no contour.
\<close>

lemma reverse_unknown_kind_raises:
  assumes "contour = m # rest" and "fst m = ''moveTo''"
    and "cmd \<in> set (strip_close rest)" and "\<not> known_kind (fst cmd)"
  shows "\<exists>e. reverse_contour_manually contour = Inl e"
proof (cases "snd m")
  case Nil
  with assms show ?thesis
    by (cases rest) (auto simp: reverse_contour_manually_def strip_close_def)
next
  case (Cons p ps)
  let ?ops = "strip_close rest"
  have ne: "?ops \<noteq> []" using assms(3) by auto
  have rest_ne: "rest \<noteq> []" using assms(3) by (auto simp: strip_close_def)
  have fewer: "length (filter (\<lambda>c. known_kind (fst c)) ?ops) < length ?ops"
    using assms(3,4) by (intro length_filter_less) auto
  show ?thesis
  proof (cases "collect_points ?ops [p]")
    case (Inl e)
    with assms(1,2) Cons ne rest_ne show ?thesis
      by (simp add: reverse_contour_manually_def)
  next
    case (Inr points)
    from collect_points_length [OF Inr] fewer
    have "length points < 0 + length (rev ?ops) + 1" by simp
    moreover have "rev ?ops \<noteq> []" using ne by simp
    ultimately obtain e where
      "reverse_operations points 0 (rev ?ops) [(''moveTo'', [last points])] = Inl e"
      using reverse_operations_short by blast
    with assms(1,2) Cons ne rest_ne Inr show ?thesis
      by (simp add: reverse_contour_manually_def)
  qed
qed

lemma reverse_operations_kinds:
  "reverse_operations pts i ops res = Inr out \<Longrightarrow>
     list_all (\<lambda>c. known_kind (fst c)) res \<Longrightarrow> list_all (\<lambda>c. known_kind (fst c)) out"
proof (induction ops arbitrary: i res)
  case Nil
  then show ?case by simp
next
  case (Cons cmd ops)
  obtain operator operands where cmd: "cmd = (operator, operands)" by (cases cmd)
  show ?case
    using Cons.prems cmd
    by (auto simp: Let_def known_kind_def split: if_splits list.splits
        dest!: Cons.IH)
qed

text \<open>
  What does hold of the kinds: a contour that the reverser rebuilds (it begins with
  \<open>moveTo\<close> and has an operation left) comes back, if it comes back, with commands of
  the four known kinds only.
\<close>

lemma reverse_output_kinds:
  assumes "contour = m # rest" and "fst m = ''moveTo''" and "strip_close rest \<noteq> []"
    and "reverse_contour_manually contour = Inr out"
  shows "list_all (\<lambda>c. known_kind (fst c)) out"
proof -
  have rest_ne: "rest \<noteq> []" using assms(3) by (auto simp: strip_close_def)
  from assms rest_ne obtain p ps points where "snd m = p # ps"
    and "collect_points (strip_close rest) [p] = Inr points"
    and "reverse_operations points 0 (rev (strip_close rest)) [(''moveTo'', [last points])]
      = Inr out"
    by (auto simp: reverse_contour_manually_def Let_def split: list.splits sum.splits)
  from reverse_operations_kinds [OF this(3)] show ?thesis
    by (simp add: known_kind_def)
qed

text \<open>
  C10, on the code. The contour \<open>moveTo (0,0); lineTo (1,0); arcTo (2,0)\<close> begins with
  \<open>moveTo\<close> and has drawing commands, one of a kind the reverser does not know. The
  reverser does not leave that command out: it raises \<open>IndexError\<close>.
\<close>

theorem reverse_unknown_kind_value:
  "reverse_contour_manually
     [(''moveTo'', [Some (0, 0)]), (''lineTo'', [Some (1, 0)]), (''arcTo'', [Some (2, 0)])] =
   Inl IndexError"
  by (simp add: reverse_contour_manually_def strip_close_def)

section \<open>When the emitter closes a path\<close>

lemma emit_commands_append:
  "emit_commands ascent (xs @ ys) s =
     (case emit_commands ascent xs s of
        Inl e \<Rightarrow> Inl e
      | Inr s' \<Rightarrow> emit_commands ascent ys s')"
  by (induction xs arbitrary: s) (auto split: sum.splits)

lemma emit_close_path:
  "emit_command ascent (st, calls) (''closePath'', operands) =
     Inr (reset_tracking,
          if \<exists>start lp. contour_start st = Some start \<and> last_point st = Some lp \<and>
               (points_close lp start default_tolerance \<or> qcurve_closed st)
          then calls @ [(''closePath'', [])] else calls)"
  by (auto split: option.splits)

lemma emit_drawing_command:
  assumes "drawing_command cmd" and "contour_start st = Some s"
    and "last_point st = Some lp"
  shows "\<exists>st' calls'. emit_command ascent (st, calls) cmd = Inr (st', calls') \<and>
     contour_start st' = Some s \<and> (\<exists>lp'. last_point st' = Some lp') \<and>
     qcurve_closed st' = implicit_close cmd"
proof -
  obtain operator operands where cmd: "cmd = (operator, operands)" by (cases cmd)
  have tp: "contour_start (track_point st operator operands) = Some s \<and>
      (\<exists>lp'. last_point (track_point st operator operands) = Some lp') \<and>
      \<not> qcurve_closed (track_point st operator operands)"
    using assms(2,3) by (simp add: track_point_def split: option.splits)
  from assms(1) have pen_cmd: "pen_command cmd" and not_move: "fst cmd \<noteq> ''moveTo''"
    by (simp_all add: drawing_command_def)
  have pen: "transform_pen ascent (operator, operands) =
      Inr (transform_call ascent (operator, operands))"
    using transform_pen_pen_command [OF pen_cmd] cmd by simp
  from pen_command_kinds [OF pen_cmd] not_move cmd
  consider (line) "operator = ''lineTo''" | (curve) "operator = ''curveTo''"
    | (qcurve) "operator = ''qCurveTo''"
    by auto
  then show ?thesis
  proof cases
    case line
    then have "emit_command ascent (st, calls) cmd =
        Inr (track_point st operator operands,
             calls @ [transform_call ascent (operator, operands)])"
      using cmd pen by simp
    moreover have "\<not> implicit_close cmd"
      using line cmd by (simp add: implicit_close_def)
    ultimately show ?thesis using tp by simp
  next
    case curve
    then have "emit_command ascent (st, calls) cmd =
        Inr (track_point st operator operands,
             calls @ [transform_call ascent (operator, operands)])"
      using cmd pen by simp
    moreover have "\<not> implicit_close cmd"
      using curve cmd by (simp add: implicit_close_def)
    ultimately show ?thesis using tp by simp
  next
    case qcurve
    show ?thesis
    proof (cases "operands \<noteq> [] \<and> last operands = None")
      case closed: True
      then have "emit_command ascent (st, calls) cmd =
          Inr (st\<lparr>last_point := contour_start st, qcurve_closed := True\<rparr>,
               calls @ [transform_call ascent (operator, operands)])"
        using qcurve cmd pen assms(2) by simp
      moreover have "implicit_close cmd"
        using qcurve closed cmd by (simp add: implicit_close_def)
      ultimately show ?thesis using assms(2) by simp
    next
      case opened: False
      then have "emit_command ascent (st, calls) cmd =
          Inr (track_point st operator operands,
               calls @ [transform_call ascent (operator, operands)])"
        using qcurve cmd pen by auto
      moreover have "\<not> implicit_close cmd"
        using opened cmd by (auto simp: implicit_close_def)
      ultimately show ?thesis using tp by simp
    qed
  qed
qed

lemma emit_drawing_commands:
  assumes "list_all drawing_command body" and "contour_start st = Some s"
    and "last_point st = Some lp"
  shows "\<exists>st' calls'. emit_commands ascent body (st, calls) = Inr (st', calls') \<and>
     contour_start st' = Some s \<and> (\<exists>lp'. last_point st' = Some lp') \<and>
     qcurve_closed st' = (if body = [] then qcurve_closed st else implicit_close (last body))"
  using assms
proof (induction body arbitrary: st calls lp)
  case Nil
  then show ?case by simp
next
  case (Cons cmd body)
  from Cons.prems have d: "drawing_command cmd" and ds: "list_all drawing_command body"
    by simp_all
  from emit_drawing_command [OF d Cons.prems(2,3)]
  obtain st1 calls1 lp1 where
    step: "emit_command ascent (st, calls) cmd = Inr (st1, calls1)"
    and s1: "contour_start st1 = Some s" "last_point st1 = Some lp1"
    and q1: "qcurve_closed st1 = implicit_close cmd"
    by blast
  from Cons.IH [OF ds s1, of calls1]
  obtain st' calls' where
    rest: "emit_commands ascent body (st1, calls1) = Inr (st', calls')"
    and s': "contour_start st' = Some s" "\<exists>lp'. last_point st' = Some lp'"
    and q': "qcurve_closed st' =
      (if body = [] then qcurve_closed st1 else implicit_close (last body))"
    by blast
  have "emit_commands ascent (cmd # body) (st, calls) = Inr (st', calls')"
    using step rest by simp
  moreover have "qcurve_closed st' = implicit_close (last (cmd # body))"
    using q' q1 by simp
  ultimately show ?case using s' by simp
qed

text \<open>
  The pens pass a call on under the name it was made with.
\<close>

lemma transform_pen_operator:
  assumes "transform_pen ascent cmd = Inr call"
  shows "fst call = fst cmd"
proof -
  consider (point) "fst cmd = ''moveTo'' \<or> fst cmd = ''lineTo''"
    | (curve) "fst cmd = ''curveTo''"
    | (qcurve) "fst cmd = ''qCurveTo''"
    | (close) "fst cmd = ''closePath'' \<or> fst cmd = ''endPath''"
    | (other) "fst cmd \<noteq> ''moveTo''" "fst cmd \<noteq> ''lineTo''" "fst cmd \<noteq> ''curveTo''"
      "fst cmd \<noteq> ''qCurveTo''" "fst cmd \<noteq> ''closePath''" "fst cmd \<noteq> ''endPath''"
    by blast
  then have "call = cmd \<or> call = transform_call ascent cmd"
  proof cases
    case point
    then have "transform_pen ascent cmd =
        (if length (snd cmd) \<noteq> 1 \<or> None \<in> set (snd cmd) then Inl TypeError
         else Inr (transform_call ascent cmd))"
      by (simp add: transform_pen_def Let_def)
    with assms show ?thesis by (simp split: if_splits)
  next
    case curve
    then have "transform_pen ascent cmd =
        (if None \<in> set (snd cmd) then Inl TypeError
         else if snd cmd = [] then Inl AssertionError
         else Inr (transform_call ascent cmd))"
      by (simp add: transform_pen_def Let_def)
    with assms show ?thesis by (simp split: if_splits)
  next
    case qcurve
    then have "transform_pen ascent cmd =
        (if snd cmd = [] then Inl IndexError
         else if None \<in> set (butlast (snd cmd)) then Inl TypeError
         else if snd cmd = [None] then Inl IndexError
         else Inr (transform_call ascent cmd))"
      by (simp add: transform_pen_def Let_def)
    with assms show ?thesis by (simp split: if_splits)
  next
    case close
    then have "transform_pen ascent cmd =
        (if snd cmd = [] then Inr cmd else Inl TypeError)"
      by (auto simp: transform_pen_def Let_def)
    with assms show ?thesis by (simp split: if_splits)
  next
    case other
    then have "transform_pen ascent cmd = Inl AttributeError"
      by (simp add: transform_pen_def Let_def)
    with assms show ?thesis by simp
  qed
  then show ?thesis by (auto simp: transform_call_def)
qed

text \<open>
  Outside a contour, that is while no contour start is tracked, a command other than
  \<open>moveTo\<close> leaves no contour start behind and sends no \<open>closePath\<close> to the serializer.
\<close>

lemma emit_command_outside:
  assumes "contour_start st = None" and "fst cmd \<noteq> ''moveTo''"
    and "emit_command ascent (st, calls) cmd = Inr (st', calls')"
  shows "contour_start st' = None \<and>
     (\<exists>new. calls' = calls @ new \<and> ''closePath'' \<notin> fst ` set new)"
proof -
  obtain operator operands where cmd: "cmd = (operator, operands)" by (cases cmd)
  have tp: "contour_start (track_point st operator operands) = None"
    using assms(1) by (simp add: track_point_def)
  from assms(2) cmd have not_move: "operator \<noteq> ''moveTo''" by simp
  consider (close) "operator = ''closePath''" | (finish) "operator = ''endPath''"
    | (pen) "operator \<noteq> ''closePath''" "operator \<noteq> ''endPath''"
    by blast
  then show ?thesis
  proof cases
    case close
    with assms(1,3) cmd have "st' = reset_tracking" "calls' = calls"
      by (simp_all add: emit_close_path del: emit_command.simps)
    then show ?thesis by (simp add: reset_tracking_def)
  next
    case finish
    with assms(3) cmd have "st' = reset_tracking" "calls' = calls" by simp_all
    then show ?thesis by (simp add: reset_tracking_def)
  next
    case pen
    have step: "emit_command ascent (st, calls) cmd =
        (case transform_pen ascent (operator, operands) of
           Inl e \<Rightarrow> Inl e
         | Inr call \<Rightarrow> Inr (track_point st operator operands, calls @ [call]))"
    proof (cases "operator = ''qCurveTo''")
      case True
      then show ?thesis using cmd assms(1) by (simp split: sum.splits)
    next
      case False
      then show ?thesis using cmd pen not_move by simp
    qed
    with assms(3) obtain call where
      call: "transform_pen ascent (operator, operands) = Inr call"
      and res: "st' = track_point st operator operands" "calls' = calls @ [call]"
      by (cases "transform_pen ascent (operator, operands)") simp_all
    from transform_pen_operator [OF call] have name: "fst call = operator" by simp
    from res tp name pen show ?thesis by simp
  qed
qed

lemma emit_commands_outside:
  assumes "contour_start st = None" and "list_all (\<lambda>cmd. fst cmd \<noteq> ''moveTo'') cmds"
    and "emit_commands ascent cmds (st, calls) = Inr (st', calls')"
  shows "contour_start st' = None \<and>
     (\<exists>new. calls' = calls @ new \<and> ''closePath'' \<notin> fst ` set new)"
  using assms
proof (induction cmds arbitrary: st calls)
  case Nil
  then show ?case by simp
next
  case (Cons cmd cmds)
  from Cons.prems(3) obtain st1 calls1 where
    step: "emit_command ascent (st, calls) cmd = Inr (st1, calls1)"
    and rest: "emit_commands ascent cmds (st1, calls1) = Inr (st', calls')"
    by (cases "emit_command ascent (st, calls) cmd") auto
  from Cons.prems(2) have not_move: "fst cmd \<noteq> ''moveTo''"
    and others: "list_all (\<lambda>cmd. fst cmd \<noteq> ''moveTo'') cmds"
    by simp_all
  from emit_command_outside [OF Cons.prems(1) not_move step]
  obtain new1 where s1: "contour_start st1 = None"
    and c1: "calls1 = calls @ new1" "''closePath'' \<notin> fst ` set new1"
    by blast
  from Cons.IH [OF s1 others rest]
  obtain new2 where s': "contour_start st' = None"
    and c2: "calls' = calls1 @ new2" "''closePath'' \<notin> fst ` set new2"
    by blast
  have "calls' = calls @ (new1 @ new2)" using c1 c2 by simp
  moreover have "''closePath'' \<notin> fst ` set (new1 @ new2)" using c1 c2 by auto
  ultimately show ?case using s' by blast
qed

text \<open>
  C4, as the code has it. Inside a contour, that is after a \<open>moveTo\<close> to a point \<open>s\<close>
  and drawing commands \<open>body\<close> only, the emitter tracks a current point \<open>lp\<close>, and a
  \<open>closePath\<close> that follows is passed on to the serializer exactly when \<open>lp\<close> is within
  0.5 of \<open>s\<close> in both coordinates (before the flip) or the command just before it is a
  \<open>qCurveTo\<close> whose last operand is \<open>None\<close>; otherwise it is dropped. Outside a
  contour no \<open>closePath\<close> is passed on: the emitter starts with no contour start
  tracked, tracks none after a \<open>closePath\<close> or an \<open>endPath\<close>, and from a state that
  tracks none, commands other than \<open>moveTo\<close> lead to a state that tracks none and send
  no \<open>closePath\<close> to the serializer, whatever they are.
\<close>

theorem close_path_in_contour:
  assumes "list_all drawing_command body"
  shows "(\<exists>lp calls1.
       emit_commands ascent ((''moveTo'', [Some s]) # body) (st_before, calls_before) =
         Inr (\<lparr>contour_start = Some s, last_point = Some lp,
               qcurve_closed = (body \<noteq> [] \<and> implicit_close (last body))\<rparr>, calls1) \<and>
       emit_commands ascent ((''moveTo'', [Some s]) # body @ [(''closePath'', operands)])
           (st_before, calls_before) =
         Inr (reset_tracking,
              if points_close lp s default_tolerance \<or>
                 (body \<noteq> [] \<and> implicit_close (last body))
              then calls1 @ [(''closePath'', [])] else calls1)) \<and>
     (contour_start st = None \<and> list_all (\<lambda>cmd. fst cmd \<noteq> ''moveTo'') cmds \<and>
        emit_commands ascent cmds (st, calls) = Inr (st', calls') \<longrightarrow>
      contour_start st' = None \<and>
      (\<exists>new. calls' = calls @ new \<and> ''closePath'' \<notin> fst ` set new)) \<and>
     contour_start initial_tracking = None \<and>
     contour_start reset_tracking = None \<and>
     (\<exists>kept. emit_command ascent (st, calls) (''closePath'', operands) =
        Inr (reset_tracking, kept)) \<and>
     emit_command ascent (st, calls) (''endPath'', operands) = Inr (reset_tracking, calls)"
proof -
  define m :: command where "m = (''moveTo'', [Some s])"
  define st_m :: tracking where
    "st_m = \<lparr>contour_start = Some s, last_point = Some s, qcurve_closed = False\<rparr>"
  define calls_m where "calls_m = calls_before @ [transform_call ascent m]"
  define closing :: command where "closing = (''closePath'', operands)"
  have "pen_command m" by (simp add: m_def pen_command_def)
  from transform_pen_pen_command [OF this]
  have "transform_pen ascent (''moveTo'', [Some s]) = Inr (transform_call ascent m)"
    by (simp only: m_def)
  then have move: "emit_command ascent (st_before, calls_before) m = Inr (st_m, calls_m)"
    by (simp add: m_def st_m_def calls_m_def)
  have cs: "contour_start st_m = Some s" and lp: "last_point st_m = Some s"
    and qc: "\<not> qcurve_closed st_m"
    by (simp_all add: st_m_def)
  from emit_drawing_commands [OF assms cs lp, of ascent calls_m]
  obtain st1 calls1 where
    run: "emit_commands ascent body (st_m, calls_m) = Inr (st1, calls1)"
    and s1: "contour_start st1 = Some s" and l1: "\<exists>lp'. last_point st1 = Some lp'"
    and q0: "qcurve_closed st1 =
      (if body = [] then qcurve_closed st_m else implicit_close (last body))"
    by blast
  from l1 obtain lp where l1': "last_point st1 = Some lp" by blast
  have q1: "qcurve_closed st1 = (body \<noteq> [] \<and> implicit_close (last body))"
    using q0 qc by (cases "body = []") simp_all
  have st1: "st1 = \<lparr>contour_start = Some s, last_point = Some lp,
             qcurve_closed = (body \<noteq> [] \<and> implicit_close (last body))\<rparr>"
    using s1 l1' q1 by simp
  have first: "emit_commands ascent (m # body) (st_before, calls_before) = Inr (st1, calls1)"
    using move run by (simp only: emit_commands.simps sum.case)
  have close1: "emit_command ascent (st1, calls1) closing =
      Inr (reset_tracking,
            if points_close lp s default_tolerance \<or>
               (body \<noteq> [] \<and> implicit_close (last body))
            then calls1 @ [(''closePath'', [])] else calls1)"
    unfolding closing_def emit_close_path using s1 l1' q1 by simp
  have "emit_commands ascent ((m # body) @ [closing]) (st_before, calls_before) =
      emit_commands ascent [closing] (st1, calls1)"
    using first by (simp only: emit_commands_append sum.case)
  also have "\<dots> = Inr (reset_tracking,
            if points_close lp s default_tolerance \<or>
               (body \<noteq> [] \<and> implicit_close (last body))
            then calls1 @ [(''closePath'', [])] else calls1)"
    using close1 by (simp only: emit_commands.simps sum.case)
  finally have second:
    "emit_commands ascent (m # body @ [closing]) (st_before, calls_before) =
       Inr (reset_tracking,
            if points_close lp s default_tolerance \<or>
               (body \<noteq> [] \<and> implicit_close (last body))
            then calls1 @ [(''closePath'', [])] else calls1)"
    by (simp only: append_Cons)
  have inside: "\<exists>lp calls1.
       emit_commands ascent ((''moveTo'', [Some s]) # body) (st_before, calls_before) =
         Inr (\<lparr>contour_start = Some s, last_point = Some lp,
               qcurve_closed = (body \<noteq> [] \<and> implicit_close (last body))\<rparr>, calls1) \<and>
       emit_commands ascent ((''moveTo'', [Some s]) # body @ [(''closePath'', operands)])
           (st_before, calls_before) =
         Inr (reset_tracking,
              if points_close lp s default_tolerance \<or>
                 (body \<noteq> [] \<and> implicit_close (last body))
              then calls1 @ [(''closePath'', [])] else calls1)"
    apply (rule exI [of _ lp])
    apply (rule exI [of _ calls1])
    apply (rule conjI)
    using first st1 apply (simp only: m_def)
    using second apply (simp only: m_def closing_def)
    done
  have outside: "contour_start st = None \<and> list_all (\<lambda>cmd. fst cmd \<noteq> ''moveTo'') cmds \<and>
        emit_commands ascent cmds (st, calls) = Inr (st', calls') \<longrightarrow>
      contour_start st' = None \<and>
      (\<exists>new. calls' = calls @ new \<and> ''closePath'' \<notin> fst ` set new)"
    using emit_commands_outside [of st cmds ascent calls st' calls'] by blast
  have start: "contour_start initial_tracking = None"
    by (simp add: initial_tracking_def)
  have reset: "contour_start reset_tracking = None"
    by (simp add: reset_tracking_def)
  have closed: "\<exists>kept. emit_command ascent (st, calls) (''closePath'', operands) =
        Inr (reset_tracking, kept)"
    by (simp only: emit_close_path) blast
  have ended: "emit_command ascent (st, calls) (''endPath'', operands) =
      Inr (reset_tracking, calls)"
    by simp
  from inside outside start reset closed ended show ?thesis by (intro conjI)
qed


theorem close_path_in_contour_witness:
  "list_all drawing_command [(''lineTo'', [Some (100, 100)])] \<and>
   emit_commands 500
     [(''moveTo'', [Some (0, 0)]), (''lineTo'', [Some (100, 100)]), (''closePath'', [])]
     (initial_tracking, []) =
     Inr (reset_tracking, [(''moveTo'', [Some (0, 500)]), (''lineTo'', [Some (100, 400)])]) \<and>
   list_all drawing_command
     [(''lineTo'', [Some (100, 100)]), (''lineTo'', [Some (1 / 2, - 1 / 2)])] \<and>
   emit_commands 500
     [(''moveTo'', [Some (0, 0)]), (''lineTo'', [Some (100, 100)]),
      (''lineTo'', [Some (1 / 2, - 1 / 2)]), (''closePath'', [])]
     (initial_tracking, []) =
     Inr (reset_tracking, [(''moveTo'', [Some (0, 500)]), (''lineTo'', [Some (100, 400)]),
       (''lineTo'', [Some (1 / 2, 1001 / 2)]), (''closePath'', [])]) \<and>
   contour_start initial_tracking = None \<and>
   list_all (\<lambda>cmd. fst cmd \<noteq> ''moveTo'') [(''lineTo'', [Some (5, 5)]), (''closePath'', [])] \<and>
   emit_commands 500 [(''lineTo'', [Some (5, 5)]), (''closePath'', [])]
     (initial_tracking, []) =
     Inr (reset_tracking, [(''lineTo'', [Some (5, 495)])]) \<and>
   (\<exists>new :: command list. [(''lineTo'', [Some (5, 495)])] = [] @ new \<and> ''closePath'' \<notin> fst ` set new)"
proof -
  have a: "list_all drawing_command [(''lineTo'', [Some (100, 100)])]"
    by (simp add: drawing_command_def pen_command_def)
  have b: "list_all drawing_command
      [(''lineTo'', [Some (100, 100)]), (''lineTo'', [Some (1 / 2, - 1 / 2)])]"
    by (simp add: drawing_command_def pen_command_def)
  have far: "\<not> points_close (100, 100) (0, 0) default_tolerance"
    by (simp add: points_close_def default_tolerance_def)
  have near: "points_close (1 / 2, - 1 / 2) (0, 0) default_tolerance"
    by (simp add: points_close_def default_tolerance_def)
  have line: "\<not> implicit_close (''lineTo'', ps)" for ps
    by (simp add: implicit_close_def)
  have start: "contour_start initial_tracking = None"
    by (simp add: initial_tracking_def)
  have no_move: "list_all (\<lambda>cmd. fst cmd \<noteq> ''moveTo'')
      [(''lineTo'', [Some (5, 5)]), (''closePath'', [])]"
    by simp
  have run: "emit_commands 500 [(''lineTo'', [Some (5, 5)]), (''closePath'', [])]
      (initial_tracking, []) =
      Inr (reset_tracking, [(''lineTo'', [Some (5, 495)])])"
    by (simp add: initial_tracking_def transform_pen_def transform_call_def track_point_def
        get_last_point_def)
  note open_case = close_path_in_contour [OF a, where ascent = 500 and s = "(0, 0)"
      and st_before = initial_tracking and calls_before = "[]" and operands = "[]"
      and st = initial_tracking and calls = "[]"
      and cmds = "[(''lineTo'', [Some (5, 5)]), (''closePath'', [])]"
      and st' = reset_tracking and calls' = "[(''lineTo'', [Some (5, 495)])]"]
  from open_case [THEN conjunct1]
  obtain lp calls1 where
    a1: "emit_commands 500 [(''moveTo'', [Some (0, 0)]), (''lineTo'', [Some (100, 100)])]
        (initial_tracking, []) =
      Inr (\<lparr>contour_start = Some (0, 0), last_point = Some lp, qcurve_closed = False\<rparr>,
        calls1)"
    and a2: "emit_commands 500
        [(''moveTo'', [Some (0, 0)]), (''lineTo'', [Some (100, 100)]), (''closePath'', [])]
        (initial_tracking, []) =
      Inr (reset_tracking,
        if points_close lp (0, 0) default_tolerance then calls1 @ [(''closePath'', [])]
        else calls1)"
    by (elim exE conjE)
      (simp only: line last.simps append.simps simp_thms if_False if_True list.simps)
  have "emit_commands 500 [(''moveTo'', [Some (0, 0)]), (''lineTo'', [Some (100, 100)])]
        (initial_tracking, []) =
      Inr (\<lparr>contour_start = Some (0, 0), last_point = Some (100, 100),
        qcurve_closed = False\<rparr>,
        [(''moveTo'', [Some (0, 500)]), (''lineTo'', [Some (100, 400)])])"
    by (simp add: initial_tracking_def transform_pen_def transform_call_def track_point_def
        get_last_point_def)
  with a1 have "lp = (100, 100)"
    and "calls1 = [(''moveTo'', [Some (0, 500)]), (''lineTo'', [Some (100, 400)])]"
    by simp_all
  with a2 far have open_path: "emit_commands 500
        [(''moveTo'', [Some (0, 0)]), (''lineTo'', [Some (100, 100)]), (''closePath'', [])]
        (initial_tracking, []) =
      Inr (reset_tracking, [(''moveTo'', [Some (0, 500)]), (''lineTo'', [Some (100, 400)])])"
    by (simp only: if_False)
  have prem: "contour_start initial_tracking = None \<and>
      list_all (\<lambda>cmd. fst cmd \<noteq> ''moveTo'')
        [(''lineTo'', [Some (5, 5)]), (''closePath'', [])] \<and>
      emit_commands 500 [(''lineTo'', [Some (5, 5)]), (''closePath'', [])]
        (initial_tracking, []) =
      Inr (reset_tracking, [(''lineTo'', [Some (5, 495)])])"
    using start no_move run by (intro conjI)
  from open_case [THEN conjunct2, THEN conjunct1] prem
  have "contour_start reset_tracking = None \<and>
      (\<exists>new :: command list. [(''lineTo'', [Some (5, 495)])] = [] @ new \<and>
        ''closePath'' \<notin> fst ` set new)"
    by (rule mp)
  then have outside: "\<exists>new :: command list. [(''lineTo'', [Some (5, 495)])] = [] @ new \<and>
      ''closePath'' \<notin> fst ` set new"
    by (rule conjunct2)
  from close_path_in_contour [OF b, where ascent = 500 and s = "(0, 0)"
      and st_before = initial_tracking and calls_before = "[]" and operands = "[]"
      and st = initial_tracking and calls = "[]" and cmds = "[]"
      and st' = initial_tracking and calls' = "[]", THEN conjunct1]
  obtain lp' calls1' where
    b1: "emit_commands 500 [(''moveTo'', [Some (0, 0)]), (''lineTo'', [Some (100, 100)]),
          (''lineTo'', [Some (1 / 2, - 1 / 2)])]
        (initial_tracking, []) =
      Inr (\<lparr>contour_start = Some (0, 0), last_point = Some lp', qcurve_closed = False\<rparr>,
        calls1')"
    and b2: "emit_commands 500
        [(''moveTo'', [Some (0, 0)]), (''lineTo'', [Some (100, 100)]),
         (''lineTo'', [Some (1 / 2, - 1 / 2)]), (''closePath'', [])]
        (initial_tracking, []) =
      Inr (reset_tracking,
        if points_close lp' (0, 0) default_tolerance then calls1' @ [(''closePath'', [])]
        else calls1')"
    by (elim exE conjE)
      (simp only: line last.simps append.simps simp_thms if_False if_True list.simps)
  have "emit_commands 500 [(''moveTo'', [Some (0, 0)]), (''lineTo'', [Some (100, 100)]),
          (''lineTo'', [Some (1 / 2, - 1 / 2)])]
        (initial_tracking, []) =
      Inr (\<lparr>contour_start = Some (0, 0), last_point = Some (1 / 2, - 1 / 2),
        qcurve_closed = False\<rparr>,
        [(''moveTo'', [Some (0, 500)]), (''lineTo'', [Some (100, 400)]),
         (''lineTo'', [Some (1 / 2, 1001 / 2)])])"
    by (simp add: initial_tracking_def transform_pen_def transform_call_def track_point_def
        get_last_point_def)
  with b1 have "lp' = (1 / 2, - 1 / 2)"
    and "calls1' = [(''moveTo'', [Some (0, 500)]), (''lineTo'', [Some (100, 400)]),
         (''lineTo'', [Some (1 / 2, 1001 / 2)])]"
    by simp_all
  with b2 near have closed_path: "emit_commands 500
        [(''moveTo'', [Some (0, 0)]), (''lineTo'', [Some (100, 100)]),
         (''lineTo'', [Some (1 / 2, - 1 / 2)]), (''closePath'', [])]
        (initial_tracking, []) =
      Inr (reset_tracking, [(''moveTo'', [Some (0, 500)]), (''lineTo'', [Some (100, 400)]),
       (''lineTo'', [Some (1 / 2, 1001 / 2)]), (''closePath'', [])])"
    by (simp only: if_True append.simps)
  from a b open_path closed_path start no_move run outside show ?thesis by (intro conjI)
qed

text \<open>
  A \<open>qCurveTo\<close> whose last operand is \<open>None\<close>, not preceded by a \<open>moveTo\<close> (how a
  contour without on-curve points is recorded), and then \<open>closePath\<close>: the
  \<open>closePath\<close> is dropped although the command before it is such a \<open>qCurveTo\<close>,
  in the emitter alone and in the whole pipeline.
\<close>

theorem close_path_counterexample:
  "implicit_close (''qCurveTo'', [Some (10, 10), Some (20, 0), None]) \<and>
   emit_commands 0
     [(''qCurveTo'', [Some (10, 10), Some (20, 0), None]), (''closePath'', [])]
     (initial_tracking, []) =
     Inr (reset_tracking, [(''qCurveTo'', [Some (10, - 10), Some (20, 0), None])]) \<and>
   glyph_to_svg_commands
     [(''qCurveTo'', [Some (10, 10), Some (20, 0), None]), (''closePath'', [])] 0 =
     Inr [(''qCurveTo'', [Some (10, - 10), Some (20, 0), None])]"
  by (simp add: initial_tracking_def reset_tracking_def transform_pen_def transform_call_def
      track_point_def get_last_point_def implicit_close_def glyph_to_svg_commands_def
      process_contour_def split_contour_at_midpoint_def reverse_contour_manually_def)

section \<open>Reversing a contour of lines and cubic curves twice\<close>

lemma end_point_backwards: "end_point (backwards cmd prev) = prev"
  by (simp add: end_point_def backwards_def)

lemma line_or_curve_backwards: "line_or_curve cmd \<Longrightarrow> line_or_curve (backwards cmd prev)"
  by (auto simp: line_or_curve_def backwards_def)

lemma backwards_backwards:
  assumes "line_or_curve cmd"
  shows "backwards (backwards cmd prev) (end_point cmd) = cmd"
proof -
  obtain operator operands where cmd: "cmd = (operator, operands)" by (cases cmd)
  from assms cmd consider (line) p where "operator = ''lineTo''" "operands = [p]"
    | (curve) a b c where "operator = ''curveTo''" "operands = [a, b, c]"
    by (auto simp: line_or_curve_def length_Suc_conv numeral_3_eq_3)
  then show ?thesis
    by cases (simp_all add: cmd backwards_def end_point_def)
qed

lemma collect_points_line_curve:
  "list_all line_or_curve ops \<Longrightarrow>
     collect_points ops pts = Inr (pts @ map end_point ops)"
proof (induction ops arbitrary: pts)
  case Nil
  show ?case by simp
next
  case (Cons cmd ops)
  obtain operator operands where cmd: "cmd = (operator, operands)" by (cases cmd)
  from Cons.prems have lc: "line_or_curve cmd" and rest: "list_all line_or_curve ops"
    by simp_all
  from lc cmd consider (line) p where "operator = ''lineTo''" "operands = [p]"
    | (curve) a b c where "operator = ''curveTo''" "operands = [a, b, c]"
    by (auto simp: line_or_curve_def length_Suc_conv numeral_3_eq_3)
  then show ?case
  proof cases
    case line
    then show ?thesis using Cons.IH [OF rest] cmd by (simp add: end_point_def)
  next
    case curve
    then show ?thesis using Cons.IH [OF rest] cmd by (simp add: end_point_def)
  qed
qed

lemma reverse_step_line_curve:
  assumes "line_or_curve cmd" and "i + 2 \<le> length pts"
  shows "reverse_operations pts i (cmd # rest) res =
     reverse_operations pts (i + 1) rest
       (res @ [backwards cmd (pts ! (length pts - (i + 2)))])"
proof -
  obtain operator operands where cmd: "cmd = (operator, operands)" by (cases cmd)
  from assms(1) cmd consider (line) p where "operator = ''lineTo''" "operands = [p]"
    | (curve) a b c where "operator = ''curveTo''" "operands = [a, b, c]"
    by (auto simp: line_or_curve_def length_Suc_conv numeral_3_eq_3)
  then show ?thesis
    using assms(2) by cases (simp_all add: cmd backwards_def Let_def)
qed

lemma zip_take_length: "zip xs (take (length xs) ps) = zip xs ps"
proof (induction xs arbitrary: ps)
  case Nil
  show ?case by simp
next
  case (Cons x xs)
  then show ?case by (cases ps) simp_all
qed

lemma zip_snoc_nth:
  assumes "length xs < length ps"
  shows "zip (xs @ [x]) ps = zip xs ps @ [(x, ps ! length xs)]"
proof -
  have "zip (xs @ [x]) ps = zip xs (take (length xs) ps) @ zip [x] (drop (length xs) ps)"
    by (simp add: zip_append1)
  moreover have "zip xs (take (length xs) ps) = zip xs ps"
    by (rule zip_take_length)
  moreover have "drop (length xs) ps = ps ! length xs # drop (Suc (length xs)) ps"
    using assms by (simp add: Cons_nth_drop_Suc)
  ultimately show ?thesis by simp
qed

lemma reverse_operations_line_curve:
  "list_all line_or_curve xs \<Longrightarrow> length pts = length xs + length (ys :: command list) + 1 \<Longrightarrow>
     reverse_operations pts (length ys) (rev xs) res =
       Inr (res @ rev (map (\<lambda>(cmd, prev). backwards cmd prev) (zip xs pts)))"
proof (induction xs arbitrary: ys res rule: rev_induct)
  case Nil
  show ?case by simp
next
  case (snoc x xs)
  from snoc.prems(1) have lc: "line_or_curve x" and rest: "list_all line_or_curve xs"
    by simp_all
  have len: "length pts = length xs + length (x # ys) + 1"
    using snoc.prems(2) by simp
  have idx: "length pts - (length ys + 2) = length xs"
    using snoc.prems(2) by simp
  have "reverse_operations pts (length ys) (rev (xs @ [x])) res =
      reverse_operations pts (length ys + 1) (rev xs)
        (res @ [backwards x (pts ! length xs)])"
    using reverse_step_line_curve [OF lc, of "length ys" pts "rev xs" res] snoc.prems(2) idx
    by simp
  also have "\<dots> = Inr ((res @ [backwards x (pts ! length xs)]) @
      rev (map (\<lambda>(cmd, prev). backwards cmd prev) (zip xs pts)))"
    using snoc.IH [OF rest len, of "res @ [backwards x (pts ! length xs)]"] by simp
  also have "(res @ [backwards x (pts ! length xs)]) @
      rev (map (\<lambda>(cmd, prev). backwards cmd prev) (zip xs pts)) =
      res @ rev (map (\<lambda>(cmd, prev). backwards cmd prev) (zip (xs @ [x]) pts))"
    using zip_snoc_nth [of xs pts x] snoc.prems(2) by simp
  finally show ?case .
qed

lemma strip_close_line_curve:
  assumes "list_all line_or_curve ops"
  shows "strip_close ops = ops"
proof (cases "ops = []")
  case True
  then show ?thesis by (simp add: strip_close_def)
next
  case False
  then have "last ops \<in> set ops" by simp
  with assms have "line_or_curve (last ops)" by (simp add: list_all_iff)
  then have "fst (last ops) \<noteq> ''closePath''" "fst (last ops) \<noteq> ''endPath''"
    by (auto simp: line_or_curve_def)
  then show ?thesis by (simp add: strip_close_def)
qed

lemma contour_points_line_curve:
  assumes "list_all line_or_curve ops"
  shows "contour_points ((''moveTo'', [p0]) # ops) = Inr (p0 # map end_point ops)"
  using collect_points_line_curve [OF assms, of "[p0]"] strip_close_line_curve [OF assms]
  by (simp add: contour_points_def)

lemma reverse_line_curve:
  assumes "list_all line_or_curve ops" and "ops \<noteq> []"
  shows "reverse_contour_manually ((''moveTo'', [p0]) # ops) =
     Inr ((''moveTo'', [last (p0 # map end_point ops)]) #
          rev (map (\<lambda>(cmd, prev). backwards cmd prev) (zip ops (p0 # map end_point ops))))"
proof -
  let ?pts = "p0 # map end_point ops"
  have pts: "collect_points ops [p0] = Inr ?pts"
    using collect_points_line_curve [OF assms(1), of "[p0]"] by simp
  have "length ?pts = length ops + length ([] :: command list) + 1" by simp
  from reverse_operations_line_curve [OF assms(1) this, of "[(''moveTo'', [last ?pts])]"]
  have "reverse_operations ?pts 0 (rev ops) [(''moveTo'', [last ?pts])] =
      Inr ((''moveTo'', [last ?pts]) #
           rev (map (\<lambda>(cmd, prev). backwards cmd prev) (zip ops ?pts)))"
    by simp
  then show ?thesis
    using assms(2) pts strip_close_line_curve [OF assms(1)]
    by (simp add: reverse_contour_manually_def)
qed

lemma backwards_twice_list:
  "list_all line_or_curve ops \<Longrightarrow> length ops \<le> length prevs \<Longrightarrow>
     map (\<lambda>(cmd, prev). backwards cmd prev)
       (zip (map (\<lambda>(cmd, prev). backwards cmd prev) (zip ops prevs)) (map end_point ops)) =
     ops"
proof (induction ops arbitrary: prevs)
  case Nil
  show ?case by simp
next
  case (Cons cmd ops)
  from Cons.prems(2) obtain q prevs' where prevs: "prevs = q # prevs'"
    by (cases prevs) auto
  from Cons.prems have "line_or_curve cmd" "list_all line_or_curve ops"
    "length ops \<le> length prevs'"
    using prevs by simp_all
  then show ?case
    using Cons.IH [of prevs'] prevs by (simp add: backwards_backwards)
qed

lemma reversed_operations_line_curve:
  "list_all line_or_curve ops \<Longrightarrow>
     list_all line_or_curve (rev (map (\<lambda>(cmd, prev). backwards cmd prev) (zip ops prevs)))"
  by (auto simp: list_all_iff line_or_curve_backwards dest!: set_zip_leftD)

lemma reversed_end_points:
  assumes "length prevs = Suc (length ops)"
  shows "map end_point (rev (map (\<lambda>(cmd, prev). backwards cmd prev) (zip ops prevs))) =
     rev (butlast prevs)"
proof -
  have "map end_point (map (\<lambda>(cmd, prev). backwards cmd prev) (zip ops prevs)) =
      map snd (zip ops prevs)"
    by (simp add: end_point_backwards split_def)
  also have "\<dots> = take (length ops) prevs"
    using assms by (simp add: map_snd_zip_take)
  also have "\<dots> = butlast prevs"
    using assms by (simp add: butlast_conv_take)
  finally have e: "map end_point (map (\<lambda>(cmd, prev). backwards cmd prev) (zip ops prevs)) =
      butlast prevs" .
  have "map end_point (rev (map (\<lambda>(cmd, prev). backwards cmd prev) (zip ops prevs))) =
      rev (map end_point (map (\<lambda>(cmd, prev). backwards cmd prev) (zip ops prevs)))"
    by (simp only: rev_map)
  then show ?thesis by (simp only: e)
qed

text \<open>
  C5. A contour that begins with \<open>moveTo\<close> and goes on with \<open>lineTo\<close> and \<open>curveTo\<close>
  commands only, with no final \<open>closePath\<close>, is reversed without an exception, and
  reversing the result gives the contour back, command for command and control point for
  control point; the points the reversed contour visits are those of the contour in
  reverse order.
\<close>

theorem reverse_twice_line_curve:
  assumes "line_curve_contour c"
  shows "\<exists>c' pts. reverse_contour_manually c = Inr c' \<and>
     reverse_contour_manually c' = Inr c \<and>
     contour_points c = Inr pts \<and> contour_points c' = Inr (rev pts)"
proof -
  from assms obtain m ops where c: "c = m # ops" and m: "fst m = ''moveTo''"
    "length (snd m) = 1" and ops: "list_all line_or_curve ops"
    by (cases c) (auto simp: line_curve_contour_def)
  from m obtain p0 where m': "m = (''moveTo'', [p0])"
    by (cases m; cases "snd m") auto
  let ?pts = "p0 # map end_point ops"
  have points: "contour_points c = Inr ?pts"
    using contour_points_line_curve [OF ops] c m' by simp
  show ?thesis
  proof (cases "ops = []")
    case True
    then have "reverse_contour_manually c = Inr c"
      using c by (simp add: reverse_contour_manually_def)
    with points True show ?thesis by simp
  next
    case False
    let ?rv = "rev (map (\<lambda>(cmd, prev). backwards cmd prev) (zip ops ?pts))"
    let ?c' = "(''moveTo'', [last ?pts]) # ?rv"
    have once: "reverse_contour_manually c = Inr ?c'"
      using reverse_line_curve [OF ops False] c m' by simp
    have rv_lc: "list_all line_or_curve ?rv"
      by (rule reversed_operations_line_curve [OF ops])
    have rv_ne: "?rv \<noteq> []" using False by (cases ops) simp_all
    have ends: "map end_point ?rv = rev (butlast ?pts)"
      by (rule reversed_end_points) simp
    have pts': "last ?pts # map end_point ?rv = rev ?pts"
    proof -
      have "rev ?pts = rev (butlast ?pts @ [last ?pts])"
        by (simp only: append_butlast_last_id [of ?pts] list.simps not_False_eq_True)
      then show ?thesis using ends by simp
    qed
    have points': "contour_points ?c' = Inr (rev ?pts)"
      using contour_points_line_curve [OF rv_lc, of "last ?pts"] pts' by simp
    have zip_back: "zip ?rv (rev ?pts) =
        rev (zip (map (\<lambda>(cmd, prev). backwards cmd prev) (zip ops ?pts)) (map end_point ops))"
    proof -
      have "zip ?rv (rev ?pts) = zip ?rv (rev (map end_point ops) @ [p0])" by simp
      also have "\<dots> = zip ?rv (rev (map end_point ops))" by (simp add: zip_append2)
      also have "\<dots> =
          rev (zip (map (\<lambda>(cmd, prev). backwards cmd prev) (zip ops ?pts))
            (map end_point ops))"
        by (rule zip_rev) simp
      finally show ?thesis .
    qed
    have "reverse_contour_manually ?c' =
        Inr ((''moveTo'', [last (last ?pts # map end_point ?rv)]) #
          rev (map (\<lambda>(cmd, prev). backwards cmd prev)
            (zip ?rv (last ?pts # map end_point ?rv))))"
      by (rule reverse_line_curve [OF rv_lc rv_ne])
    also have "last (last ?pts # map end_point ?rv) = p0"
      by (simp only: pts') simp
    also have "rev (map (\<lambda>(cmd, prev). backwards cmd prev)
            (zip ?rv (last ?pts # map end_point ?rv))) = ops"
    proof -
      have "zip ?rv (last ?pts # map end_point ?rv) =
          rev (zip (map (\<lambda>(cmd, prev). backwards cmd prev) (zip ops ?pts))
            (map end_point ops))"
        by (simp only: pts' zip_back)
      then have "rev (map (\<lambda>(cmd, prev). backwards cmd prev)
            (zip ?rv (last ?pts # map end_point ?rv))) =
          rev (map (\<lambda>(cmd, prev). backwards cmd prev)
            (rev (zip (map (\<lambda>(cmd, prev). backwards cmd prev) (zip ops ?pts))
              (map end_point ops))))"
        by (rule arg_cong)
      also have "\<dots> = map (\<lambda>(cmd, prev). backwards cmd prev)
            (zip (map (\<lambda>(cmd, prev). backwards cmd prev) (zip ops ?pts))
              (map end_point ops))"
        by (simp only: rev_map rev_rev_ident)
      also have "\<dots> = ops"
        by (rule backwards_twice_list [OF ops]) simp
      finally show ?thesis .
    qed
    finally have twice: "reverse_contour_manually ?c' = Inr c"
      using c m' by simp
    from once twice points points' show ?thesis by blast
  qed
qed

theorem reverse_twice_line_curve_witness:
  "line_curve_contour
     [(''moveTo'', [Some (0, 0)]),
      (''curveTo'', [Some (10, 20), Some (30, 20), Some (40, 0)])] \<and>
   reverse_contour_manually
     [(''moveTo'', [Some (0, 0)]),
      (''curveTo'', [Some (10, 20), Some (30, 20), Some (40, 0)])] =
     Inr [(''moveTo'', [Some (40, 0)]),
          (''curveTo'', [Some (30, 20), Some (10, 20), Some (0, 0)])] \<and>
   reverse_contour_manually
     [(''moveTo'', [Some (40, 0)]),
      (''curveTo'', [Some (30, 20), Some (10, 20), Some (0, 0)])] =
     Inr [(''moveTo'', [Some (0, 0)]),
          (''curveTo'', [Some (10, 20), Some (30, 20), Some (40, 0)])]"
proof -
  let ?c = "[(''moveTo'', [Some (0 :: real, 0 :: real)]),
      (''curveTo'', [Some (10, 20), Some (30, 20), Some (40, 0)])]"
  have lc: "line_curve_contour ?c"
    by (simp add: line_curve_contour_def line_or_curve_def)
  have once: "reverse_contour_manually ?c =
     Inr [(''moveTo'', [Some (40, 0)]),
          (''curveTo'', [Some (30, 20), Some (10, 20), Some (0, 0)])]"
    by (simp add: reverse_contour_manually_def strip_close_def)
  from reverse_twice_line_curve [OF lc] obtain c' where
    "reverse_contour_manually ?c = Inr c'" and again: "reverse_contour_manually c' = Inr ?c"
    by blast
  with once have "c' = [(''moveTo'', [Some (40, 0)]),
          (''curveTo'', [Some (30, 20), Some (10, 20), Some (0, 0)])]"
    by simp
  with again lc once show ?thesis by simp
qed

end
